theory Spec2Isabelle
  imports Complex_Main "HOL-Library.Finite_Map" "HOL-Library.Extended_Nat"
begin

section \<open>The live stream worker pool of ring-mqtt (lib/stream-workers.js)\<close>

text \<open>
  The module keeps an array \<^verbatim>\<open>streamWorkers\<close> of worker entries, each with a worker
  thread handle \<^verbatim>\<open>liveCall\<close> and a plain object \<^verbatim>\<open>sessions\<close> used as a dictionary
  from device id to a session record \<^verbatim>\<open>{ streamData }\<close>. Three listeners are
  registered by \<^verbatim>\<open>init\<close>: one for the messages of the worker threads, one for the
  \<^verbatim>\<open>start_livestream\<close> event and one for the \<^verbatim>\<open>stop_livestream\<close> event. Node runs
  each listener to completion before the next one starts, so the pool is modelled as a
  value that every listener takes and returns, together with the list of what the
  listener sent out (events emitted on \<^verbatim>\<open>utils.event\<close>, messages posted to worker
  threads). The listeners of the emitted \<^verbatim>\<open>livestream_<id>\<close> events belong to other
  modules and are not part of the model. The calls of \<^verbatim>\<open>utils.debug\<close> only write to
  the log and are left out.
\<close>

subsection \<open>Data\<close>

text \<open>
  \<^verbatim>\<open>streamData\<close> is the object a caller passes with \<^verbatim>\<open>start_livestream\<close> and
  \<^verbatim>\<open>stop_livestream\<close>. The module reads \<^verbatim>\<open>deviceId\<close> (and \<^verbatim>\<open>deviceName\<close>, for the
  log only) and writes \<^verbatim>\<open>sessionId\<close>; every other field is carried along untouched
  and is gathered in \<open>params\<close>. A device id is used as a property name of the
  \<^verbatim>\<open>sessions\<close> object, so it is a string, and any string. Every event brings its own
  payload object: the only write of the module into a payload is the \<^verbatim>\<open>sessionId\<close> of
  a stored record.
\<close>

record ('c, 'p) stream_data =
  deviceId :: string
  sessionId :: 'c
  params :: 'p

text \<open>
  A session record, \<^verbatim>\<open>{ streamData }\<close>. JavaScript does not fix the shape of an object:
  the field is optional here (\<open>None\<close> for \<^verbatim>\<open>undefined\<close>), and that the records of the
  pool always have it is a theorem, not a property of the type.
\<close>

record ('c, 'p) session =
  streamData :: "('c, 'p) stream_data option"

text \<open>
  A worker entry, \<^verbatim>\<open>{ liveCall: new Worker(...), sessions: {} }\<close>. The thread handle
  is only ever the target of \<^verbatim>\<open>postMessage\<close>; it is identified by the index of the
  entry in the pool. \<open>sessions\<close> is the finite map of the own properties of the object.
\<close>

record ('c, 'p) worker =
  sessions :: "(string, ('c, 'p) session) fmap"

type_synonym ('c, 'p) pool = "('c, 'p) worker list"

text \<open>The message a worker thread sends: \<^verbatim>\<open>{ state, liveCallData: { deviceId, sessionId } }\<close>.\<close>

record 'c liveCallData =
  lc_deviceId :: string
  lc_sessionId :: 'c

record 'c report =
  state :: string
  liveCallData :: "'c liveCallData"

text \<open>
  What a listener sends out: \<^verbatim>\<open>utils.event.emit(name, arg)\<close>, and
  \<^verbatim>\<open>streamWorkers[i].liveCall.postMessage({ command, streamData })\<close>, which hands the
  worker thread a copy of the payload as it is at that moment (\<open>None\<close> when the field
  read for it is \<^verbatim>\<open>undefined\<close>).
\<close>

datatype ('c, 'p) effect =
  Emit string string
| PostMessage nat string "('c, 'p) stream_data option"

text \<open>Reading a property of \<^verbatim>\<open>undefined\<close>, and calling what is not a function, throw
  a TypeError.\<close>

datatype error = TypeError

subsection \<open>Library functions of JavaScript\<close>

text \<open>\<^verbatim>\<open>Array.prototype.findIndex\<close>: the first index whose element satisfies the
  callback, \<open>-1\<close> when there is none. The callback is called on the elements in order,
  and an exception it throws ends the search.\<close>

fun findIndex :: "('a \<Rightarrow> error + bool) \<Rightarrow> 'a list \<Rightarrow> error + int" where
  "findIndex P [] = Inr (- 1)"
| "findIndex P (x # xs) =
     (case P x of
        Inl e \<Rightarrow> Inl e
      | Inr found \<Rightarrow>
          if found then Inr 0
          else (case findIndex P xs of
                  Inl e \<Rightarrow> Inl e
                | Inr i \<Rightarrow> Inr (if i < 0 then - 1 else i + 1)))"

text \<open>\<^verbatim>\<open>Array.prototype.indexOf\<close>: the first index of an element equal to the value,
  \<open>-1\<close> when there is none.\<close>

fun indexOf :: "'a list \<Rightarrow> 'a \<Rightarrow> int" where
  "indexOf [] v = - 1"
| "indexOf (x # xs) v =
     (if x = v then 0 else (let i = indexOf xs v in if i < 0 then - 1 else i + 1))"

text \<open>\<^verbatim>\<open>Math.min(...xs)\<close>: the least argument, \<^verbatim>\<open>Infinity\<close> when there is none.\<close>

definition Math_min :: "enat list \<Rightarrow> enat" where
  "Math_min xs = fold min xs \<infinity>"

text \<open>\<^verbatim>\<open>Math.round\<close>: the nearest integer, a tie going up. The argument is taken as
  an exact rational; the quotients \<open>c / 1.5\<close> of whole numbers \<open>c\<close> lie at least \<open>1/6\<close>
  away from every tie, so the rounding of the double agrees with it.\<close>

definition Math_round :: "rat \<Rightarrow> int" where
  "Math_round x = \<lfloor>x + 1 / 2\<rfloor>"

text \<open>\<^verbatim>\<open>xs[i]\<close> for an integral index: \<^verbatim>\<open>undefined\<close> outside the array.\<close>

definition elem_at :: "'a list \<Rightarrow> int \<Rightarrow> 'a option" where
  "elem_at xs i = (if 0 \<le> i \<and> i < int (length xs) then Some (xs ! nat i) else None)"

text \<open>
  \<^verbatim>\<open>obj.hasOwnProperty(k)\<close> on a plain object \<^verbatim>\<open>obj\<close>. The method is the one of
  \<^verbatim>\<open>Object.prototype\<close>, unless the object has an own property of the name
  \<^verbatim>\<open>hasOwnProperty\<close>: the call then finds the value of that property, which here is a
  session record and not a function, and throws.
\<close>

definition hasOwnProperty :: "(string, 'v) fmap \<Rightarrow> string \<Rightarrow> error + bool" where
  "hasOwnProperty obj k =
     (if ''hasOwnProperty'' |\<in>| fmdom obj then Inl TypeError else Inr (k |\<in>| fmdom obj))"

text \<open>
  \<^verbatim>\<open>obj[k] = v\<close> on a plain object \<^verbatim>\<open>obj\<close>, for an object \<^verbatim>\<open>v\<close>. The name
  \<^verbatim>\<open>__proto__\<close> is an accessor of \<^verbatim>\<open>Object.prototype\<close>: assigning to it replaces the
  prototype of \<^verbatim>\<open>obj\<close> and creates no own property. Every other name becomes, or stays,
  an own property. The prototype is not part of the model: \<^verbatim>\<open>hasOwnProperty\<close> and
  \<^verbatim>\<open>Object.keys\<close> see own properties only, the module reads \<^verbatim>\<open>sessions[k]\<close> only after
  \<^verbatim>\<open>hasOwnProperty\<close> has found \<^verbatim>\<open>k\<close>, and the prototypes assigned (session records) have
  no property \<^verbatim>\<open>hasOwnProperty\<close> of their own.
\<close>

definition set_property :: "(string, 'v) fmap \<Rightarrow> string \<Rightarrow> 'v \<Rightarrow> (string, 'v) fmap" where
  "set_property obj k v = (if k = ''__proto__'' then obj else fmupd k v obj)"

subsection \<open>The module\<close>

text \<open>\<^verbatim>\<open>getWorkerId(deviceId)\<close>.\<close>

definition getWorkerId :: "('c, 'p) pool \<Rightarrow> string \<Rightarrow> error + int" where
  "getWorkerId streamWorkers k =
     findIndex (\<lambda>worker. hasOwnProperty (sessions worker) k) streamWorkers"

text \<open>The number of workers \<^verbatim>\<open>init\<close> starts, from the result of
  \<^verbatim>\<open>utils.getCpuCores()\<close> (a function of another module, whose result is a parameter
  here).\<close>

definition numWorkers :: "int \<Rightarrow> int" where
  "numWorkers cpuCores =
     (if cpuCores > 4 then 4 else Math_round (of_int cpuCores / (3 / 2)))"

text \<open>The pool after the loop of \<^verbatim>\<open>init\<close>: \<open>numWorkers\<close> entries with empty
  dictionaries.\<close>

definition init :: "int \<Rightarrow> ('c, 'p) pool" where
  "init cpuCores = replicate (nat (numWorkers cpuCores)) \<lparr>sessions = fmempty\<rparr>"

text \<open>The number of active sessions of a worker,
  \<^verbatim>\<open>Object.keys(worker.sessions).length\<close>.\<close>

definition load :: "('c, 'p) worker \<Rightarrow> nat" where
  "load worker = fcard (fmdom (sessions worker))"

text \<open>
  A listener returns the pool and what it sent out, or throws: \<open>Inl\<close> has the exception,
  the pool at the throw and what was sent out before it.
\<close>

type_synonym ('c, 'p) outcome =
  "error \<times> ('c, 'p) pool \<times> ('c, 'p) effect list + ('c, 'p) pool \<times> ('c, 'p) effect list"

text \<open>The listener of \<^verbatim>\<open>start_livestream\<close>. With no worker at all, \<^verbatim>\<open>Math.min()\<close> is
  \<^verbatim>\<open>Infinity\<close>, \<^verbatim>\<open>indexOf\<close> gives \<open>-1\<close> and \<^verbatim>\<open>streamWorkers[-1].sessions\<close> throws.\<close>

definition on_start_livestream ::
  "('c, 'p) pool \<Rightarrow> ('c, 'p) stream_data \<Rightarrow> ('c, 'p) outcome" where
  "on_start_livestream streamWorkers sd =
     (case getWorkerId streamWorkers (deviceId sd) of
        Inl e \<Rightarrow> Inl (e, streamWorkers, [])
      | Inr found \<Rightarrow>
          if found < 0 then
            (let workerSessions = map (\<lambda>worker. enat (load worker)) streamWorkers;
                 fewestSessions = Math_min workerSessions;
                 workerId = indexOf workerSessions fewestSessions
             in case elem_at streamWorkers workerId of
                  None \<Rightarrow> Inl (TypeError, streamWorkers, [])
                | Some w \<Rightarrow>
                    Inr (streamWorkers[nat workerId :=
                           w\<lparr>sessions :=
                               set_property (sessions w) (deviceId sd) \<lparr>streamData = Some sd\<rparr>\<rparr>],
                         [PostMessage (nat workerId) ''start'' (Some sd)]))
          else Inr (streamWorkers, []))"

text \<open>The listener of \<^verbatim>\<open>stop_livestream\<close>.\<close>

definition on_stop_livestream ::
  "('c, 'p) pool \<Rightarrow> ('c, 'p) stream_data \<Rightarrow> ('c, 'p) outcome" where
  "on_stop_livestream streamWorkers sd =
     (case getWorkerId streamWorkers (deviceId sd) of
        Inl e \<Rightarrow> Inl (e, streamWorkers, [])
      | Inr workerId \<Rightarrow>
          if workerId \<ge> 0 then
            (case elem_at streamWorkers workerId of
               None \<Rightarrow> Inl (TypeError, streamWorkers, [])
             | Some w \<Rightarrow>
                 (case fmlookup (sessions w) (deviceId sd) of
                    None \<Rightarrow> Inl (TypeError, streamWorkers, [])
                  | Some r \<Rightarrow>
                      Inr (streamWorkers, [PostMessage (nat workerId) ''stop'' (streamData r)])))
          else Inr (streamWorkers, [Emit (''livestream_'' @ deviceId sd) ''inactive'']))"

text \<open>The listener of a worker thread's messages; it is the same for every worker and
  does not look at which worker sent the message. In each case the event is emitted
  first, so a throw of the statement after it comes with the event already sent.\<close>

definition on_message ::
  "('c, 'p) pool \<Rightarrow> 'c report \<Rightarrow> ('c, 'p) outcome" where
  "on_message streamWorkers data =
     (let k = lc_deviceId (liveCallData data) in
      case getWorkerId streamWorkers k of
        Inl e \<Rightarrow> Inl (e, streamWorkers, [])
      | Inr workerId \<Rightarrow>
          if workerId \<ge> 0 then
            (if state data = ''active'' then
               (case elem_at streamWorkers workerId of
                  None \<Rightarrow> Inl (TypeError, streamWorkers, [Emit (''livestream_'' @ k) ''active''])
                | Some w \<Rightarrow>
                    (case fmlookup (sessions w) k of
                       None \<Rightarrow> Inl (TypeError, streamWorkers, [Emit (''livestream_'' @ k) ''active''])
                     | Some r \<Rightarrow>
                         (case streamData r of
                            None \<Rightarrow>
                              Inl (TypeError, streamWorkers, [Emit (''livestream_'' @ k) ''active''])
                          | Some p \<Rightarrow>
                              Inr (streamWorkers[nat workerId :=
                                     w\<lparr>sessions := fmupd k
                                          (r\<lparr>streamData :=
                                               Some (p\<lparr>sessionId := lc_sessionId (liveCallData data)\<rparr>)\<rparr>)
                                          (sessions w)\<rparr>],
                                   [Emit (''livestream_'' @ k) ''active'']))))
             else if state data = ''inactive'' then
               (case elem_at streamWorkers workerId of
                  None \<Rightarrow> Inl (TypeError, streamWorkers, [Emit (''livestream_'' @ k) ''inactive''])
                | Some w \<Rightarrow>
                    Inr (streamWorkers[nat workerId := w\<lparr>sessions := fmdrop k (sessions w)\<rparr>],
                         [Emit (''livestream_'' @ k) ''inactive'']))
             else if state data = ''failed'' then
               (case elem_at streamWorkers workerId of
                  None \<Rightarrow> Inl (TypeError, streamWorkers, [Emit (''livestream_'' @ k) ''failed''])
                | Some w \<Rightarrow>
                    Inr (streamWorkers[nat workerId := w\<lparr>sessions := fmdrop k (sessions w)\<rparr>],
                         [Emit (''livestream_'' @ k) ''failed'']))
             else Inr (streamWorkers, []))
          else Inr (streamWorkers, []))"

subsection \<open>The event loop\<close>

datatype ('c, 'p) event =
  Start_livestream "('c, 'p) stream_data"
| Stop_livestream "('c, 'p) stream_data"
| Message "'c report"

fun dispatch :: "('c, 'p) pool \<Rightarrow> ('c, 'p) event \<Rightarrow> ('c, 'p) outcome" where
  "dispatch ws (Start_livestream sd) = on_start_livestream ws sd"
| "dispatch ws (Stop_livestream sd) = on_stop_livestream ws sd"
| "dispatch ws (Message data) = on_message ws data"

text \<open>Events are handled one after the other; the run ends at the first listener that
  throws.\<close>

fun run :: "('c, 'p) pool \<Rightarrow> ('c, 'p) event list \<Rightarrow> ('c, 'p) outcome" where
  "run ws [] = Inr (ws, [])"
| "run ws (e # es) =
     (case dispatch ws e of
        Inl (x, ws', out) \<Rightarrow> Inl (x, ws', out)
      | Inr (ws', out) \<Rightarrow>
          (case run ws' es of
             Inl (x, ws'', out') \<Rightarrow> Inl (x, ws'', out @ out')
           | Inr (ws'', out') \<Rightarrow> Inr (ws'', out @ out')))"

section \<open>Notions used in the statements\<close>

text \<open>The specification's rule for the number of workers, \<open>N = min(4, round(cores/1.5))\<close>,
  kept apart from \<open>numWorkers\<close>, which is the code's.\<close>

definition numWorkers_spec :: "int \<Rightarrow> int" where
  "numWorkers_spec cores = min 4 (Math_round (of_int cores / (3 / 2)))"

text \<open>The worker entries whose dictionary has the key, one for every position of the pool
  that has it. A key is registered when this list is not empty.\<close>

definition owners :: "('c, 'p) pool \<Rightarrow> string \<Rightarrow> ('c, 'p) worker list" where
  "owners ws k = filter (\<lambda>worker. k |\<in>| fmdom (sessions worker)) ws"

text \<open>No key is in the dictionaries of two different positions of the pool.\<close>

definition unique_owner :: "('c, 'p) pool \<Rightarrow> bool" where
  "unique_owner ws \<longleftrightarrow>
     (\<forall>i<length ws. \<forall>j<length ws. \<forall>k.
        k |\<in>| fmdom (sessions (ws ! i)) \<longrightarrow> k |\<in>| fmdom (sessions (ws ! j)) \<longrightarrow> i = j)"


text \<open>A worker message that reports \<^verbatim>\<open>inactive\<close> or \<^verbatim>\<open>failed\<close> for the key.\<close>

fun terminal_report_for :: "string \<Rightarrow> ('c, 'p) event \<Rightarrow> bool" where
  "terminal_report_for k (Message data) =
     (lc_deviceId (liveCallData data) = k \<and> (state data = ''inactive'' \<or> state data = ''failed''))"
| "terminal_report_for k (Start_livestream sd) = False"
| "terminal_report_for k (Stop_livestream sd) = False"


text \<open>A \<^verbatim>\<open>start\<close> command posted to a worker thread for the key.\<close>

fun start_command_for :: "string \<Rightarrow> ('c, 'p) effect \<Rightarrow> bool" where
  "start_command_for k (PostMessage w command p) =
     (command = ''start'' \<and> (case p of None \<Rightarrow> False | Some sd \<Rightarrow> deviceId sd = k))"
| "start_command_for k (Emit name arg) = False"

text \<open>
  What the payload of the record of a key has become after a list of events, none of
  which removes the record: every \<^verbatim>\<open>active\<close> message for the key has written its
  \<^verbatim>\<open>sessionId\<close> into it, and nothing else has changed.
\<close>

fun payload_after ::
  "string \<Rightarrow> ('c, 'p) stream_data \<Rightarrow> ('c, 'p) event list \<Rightarrow> ('c, 'p) stream_data" where
  "payload_after k p [] = p"
| "payload_after k p (Message data # es) =
     payload_after k
       (if lc_deviceId (liveCallData data) = k \<and> state data = ''active''
        then p\<lparr>sessionId := lc_sessionId (liveCallData data)\<rparr> else p) es"
| "payload_after k p (Start_livestream sd # es) = payload_after k p es"
| "payload_after k p (Stop_livestream sd # es) = payload_after k p es"

subsection \<open>Values for the examples\<close>

definition example_payload :: "string \<Rightarrow> nat \<Rightarrow> (nat, unit) stream_data" where
  "example_payload k c = \<lparr>deviceId = k, sessionId = c, params = ()\<rparr>"

definition example_report :: "string \<Rightarrow> string \<Rightarrow> nat \<Rightarrow> nat report" where
  "example_report st k c = \<lparr>state = st, liveCallData = \<lparr>lc_deviceId = k, lc_sessionId = c\<rparr>\<rparr>"

text \<open>A worker entry whose dictionary has, for each listed pair, the key with a record
  holding \<open>example_payload\<close> of the key and the session id.\<close>

definition example_worker :: "(string \<times> nat) list \<Rightarrow> (nat, unit) worker" where
  "example_worker kcs =
     \<lparr>sessions = fold (\<lambda>(k, c). fmupd k \<lparr>streamData = Some (example_payload k c)\<rparr>) kcs fmempty\<rparr>"

section \<open>Properties\<close>

subsection \<open>Rounding and the size of the pool\<close>

lemma Math_round_thirds: "Math_round (of_int c / (3 / 2)) = (4 * c + 3) div 6"
proof -
  have "of_int c / (3 / 2) + 1 / 2 = (of_int (4 * c + 3) :: rat) / of_int 6"
    by simp
  then show ?thesis
    unfolding Math_round_def by (simp only: floor_divide_of_int_eq)
qed

lemma numWorkers_div: "numWorkers c = (if c > 4 then 4 else (4 * c + 3) div 6)"
  by (simp only: numWorkers_def Math_round_thirds)

lemma numWorkers_spec_div: "numWorkers_spec c = min 4 ((4 * c + 3) div 6)"
  by (simp only: numWorkers_spec_def Math_round_thirds)

lemma length_init: "length (init c) = nat (numWorkers c)"
  by (simp add: init_def)

subsection \<open>The array functions\<close>

lemma findIndex_Inr_neg:
  "findIndex P xs = Inr i \<Longrightarrow> i < 0 \<Longrightarrow> \<forall>x\<in>set xs. P x = Inr False"
proof (induction xs arbitrary: i)
  case Nil
  then show ?case by simp
next
  case (Cons x xs)
  from Cons.prems obtain i' where px: "P x = Inr False" and rest: "findIndex P xs = Inr i'"
    and neg: "i' < 0"
    by (auto split: sum.splits if_splits)
  from Cons.IH [OF rest neg] px show ?case by simp
qed

lemma findIndex_Inr_found:
  "findIndex P xs = Inr i \<Longrightarrow> 0 \<le> i \<Longrightarrow>
   nat i < length xs \<and> P (xs ! nat i) = Inr True \<and> (\<forall>j<nat i. P (xs ! j) = Inr False)"
proof (induction xs arbitrary: i)
  case Nil
  then show ?case by simp
next
  case (Cons x xs)
  show ?case
  proof (cases "P x = Inr True")
    case True
    with Cons.prems show ?thesis by simp
  next
    case False
    with Cons.prems obtain i' where px: "P x = Inr False" and rest: "findIndex P xs = Inr i'"
      and nn: "0 \<le> i'" and i: "i = i' + 1"
      by (auto split: sum.splits if_splits)
    from i nn have idx: "nat i = Suc (nat i')" by (simp add: nat_add_distrib)
    from Cons.IH [OF rest nn] px show ?thesis
      unfolding idx by (auto simp: less_Suc_eq_0_disj)
  qed
qed



lemma findIndex_throws:
  "findIndex P xs = Inl e \<Longrightarrow> \<exists>x\<in>set xs. P x = Inl e"
proof (induction xs)
  case Nil
  then show ?case by simp
next
  case (Cons x xs)
  then show ?case by (auto split: sum.splits if_splits)
qed

lemma indexOf_found:
  assumes "v \<in> set xs"
  shows "0 \<le> indexOf xs v \<and> nat (indexOf xs v) < length xs \<and> xs ! nat (indexOf xs v) = v \<and>
         (\<forall>j<nat (indexOf xs v). xs ! j \<noteq> v)"
  using assms
proof (induction xs)
  case Nil
  then show ?case by simp
next
  case (Cons x xs)
  show ?case
  proof (cases "x = v")
    case True
    then show ?thesis by simp
  next
    case False
    with Cons.prems have "v \<in> set xs" by simp
    from Cons.IH [OF this] have ih: "0 \<le> indexOf xs v" "nat (indexOf xs v) < length xs"
      "xs ! nat (indexOf xs v) = v" "\<forall>j<nat (indexOf xs v). xs ! j \<noteq> v" by simp_all
    from False ih(1) have idx: "indexOf (x # xs) v = indexOf xs v + 1"
      by (simp add: Let_def)
    from ih(1) have n: "nat (indexOf xs v + 1) = Suc (nat (indexOf xs v))"
      by (simp add: nat_add_distrib)
    from ih False show ?thesis
      unfolding idx n by (auto simp: less_Suc_eq_0_disj)
  qed
qed

lemma fold_min_le: "fold min xs (a::enat) \<le> a"
proof (induction xs arbitrary: a)
  case Nil then show ?case by simp
next
  case (Cons x xs)
  have "fold min xs (min x a) \<le> min x a" by (rule Cons.IH)
  then show ?case by (simp add: min_le_iff_disj)
qed

lemma fold_min_le_elem: "x \<in> set xs \<Longrightarrow> fold min xs (a::enat) \<le> x"
proof (induction xs arbitrary: a)
  case Nil then show ?case by simp
next
  case (Cons y ys)
  show ?case
  proof (cases "x = y")
    case True
    have "fold min ys (min y a) \<le> min y a" by (rule fold_min_le)
    with True show ?thesis by simp
  next
    case False
    with Cons.prems have "x \<in> set ys" by simp
    then show ?thesis by (simp add: Cons.IH)
  qed
qed

lemma fold_min_in: "fold min xs (a::enat) \<in> insert a (set xs)"
proof (induction xs arbitrary: a)
  case Nil then show ?case by simp
next
  case (Cons x xs)
  have "fold min xs (min x a) \<in> insert (min x a) (set xs)" by (rule Cons.IH)
  moreover have "min x a = x \<or> min x a = a" by (simp add: min_def)
  ultimately show ?case by auto
qed

lemma Math_min_le: "x \<in> set xs \<Longrightarrow> Math_min xs \<le> x"
  by (simp add: Math_min_def fold_min_le_elem)

lemma Math_min_in: "xs \<noteq> [] \<Longrightarrow> Math_min xs \<in> set xs"
proof (cases xs)
  case Nil
  assume "xs \<noteq> []" with Nil show ?thesis by simp
next
  case (Cons x ys)
  have "fold min ys x \<in> insert x (set ys)" by (rule fold_min_in)
  with Cons show ?thesis by (simp add: Math_min_def)
qed

lemma elem_at_nat: "0 \<le> i \<Longrightarrow> nat i < length xs \<Longrightarrow> elem_at xs i = Some (xs ! nat i)"
  by (simp add: elem_at_def nat_less_iff)

lemma elem_at_int: "w < length xs \<Longrightarrow> elem_at xs (int w) = Some (xs ! w)"
  by (simp add: elem_at_def)

subsection \<open>The lookup\<close>

lemma owners_Nil_iff:
  "owners ws k = [] \<longleftrightarrow> (\<forall>i<length ws. k |\<notin>| fmdom (sessions (ws ! i)))"
  by (simp add: owners_def filter_empty_conv all_set_conv_all_nth)

lemma hasOwnProperty_False_iff:
  "hasOwnProperty obj k = Inr False \<longleftrightarrow> ''hasOwnProperty'' |\<notin>| fmdom obj \<and> k |\<notin>| fmdom obj"
  by (simp add: hasOwnProperty_def)

lemma hasOwnProperty_True_iff:
  "hasOwnProperty obj k = Inr True \<longleftrightarrow> ''hasOwnProperty'' |\<notin>| fmdom obj \<and> k |\<in>| fmdom obj"
  by (simp add: hasOwnProperty_def)

lemma hasOwnProperty_throws_iff:
  "hasOwnProperty obj k = Inl e \<longleftrightarrow> ''hasOwnProperty'' |\<in>| fmdom obj"
  by (cases e) (simp add: hasOwnProperty_def)

lemma getWorkerId_neg:
  assumes "getWorkerId ws k = Inr i" and "i < 0"
  shows "owners ws k = [] \<and> owners ws ''hasOwnProperty'' = []"
  using findIndex_Inr_neg [of "\<lambda>worker. hasOwnProperty (sessions worker) k" ws i] assms
  by (simp add: getWorkerId_def owners_def filter_empty_conv hasOwnProperty_False_iff)

lemma getWorkerId_found:
  assumes "getWorkerId ws k = Inr i" and "0 \<le> i"
  shows "nat i < length ws \<and> k |\<in>| fmdom (sessions (ws ! nat i)) \<and>
         (\<forall>j<nat i. k |\<notin>| fmdom (sessions (ws ! j)))"
  using findIndex_Inr_found [of "\<lambda>worker. hasOwnProperty (sessions worker) k" ws i] assms
  by (simp add: getWorkerId_def hasOwnProperty_False_iff hasOwnProperty_True_iff)

lemma getWorkerId_throws:
  assumes "getWorkerId ws k = Inl e"
  shows "owners ws ''hasOwnProperty'' \<noteq> []"
  using findIndex_throws [of "\<lambda>worker. hasOwnProperty (sessions worker) k" ws e] assms
  by (auto simp: getWorkerId_def owners_def filter_empty_conv hasOwnProperty_throws_iff)





subsection \<open>The listeners, case by case\<close>

lemma placement:
  assumes "ws \<noteq> []"
  defines "workerSessions \<equiv> map (\<lambda>worker. enat (load worker)) ws"
  defines "workerId \<equiv> indexOf workerSessions (Math_min workerSessions)"
  shows "0 \<le> workerId \<and> nat workerId < length ws \<and>
         (\<forall>j<length ws. fcard (fmdom (sessions (ws ! nat workerId))) \<le> fcard (fmdom (sessions (ws ! j)))) \<and>
         (\<forall>j<nat workerId. fcard (fmdom (sessions (ws ! nat workerId))) < fcard (fmdom (sessions (ws ! j))))"
proof -
  from assms(1) have ne: "workerSessions \<noteq> []" by (simp add: workerSessions_def)
  have len: "length workerSessions = length ws" by (simp add: workerSessions_def)
  have nth: "workerSessions ! j = enat (fcard (fmdom (sessions (ws ! j))))" if "j < length ws" for j
    using that by (simp add: workerSessions_def load_def)
  from indexOf_found [OF Math_min_in [OF ne]]
  have nn: "0 \<le> workerId" and lt: "nat workerId < length ws"
    and eq: "workerSessions ! nat workerId = Math_min workerSessions"
    and first: "\<forall>j<nat workerId. workerSessions ! j \<noteq> Math_min workerSessions"
    by (simp_all add: workerId_def len)
  have least: "Math_min workerSessions \<le> workerSessions ! j" if "j < length ws" for j
    using that by (intro Math_min_le) (simp add: len)
  have a: "fcard (fmdom (sessions (ws ! nat workerId))) \<le> fcard (fmdom (sessions (ws ! j)))"
    if "j < length ws" for j
  proof -
    from least [OF that] have "workerSessions ! nat workerId \<le> workerSessions ! j"
      by (simp add: eq)
    then show ?thesis unfolding nth [OF that] nth [OF lt] by simp
  qed
  have b: "fcard (fmdom (sessions (ws ! nat workerId))) < fcard (fmdom (sessions (ws ! j)))"
    if "j < nat workerId" for j
  proof -
    from that lt have j: "j < length ws" by simp
    from first that have "workerSessions ! j \<noteq> workerSessions ! nat workerId"
      by (simp add: eq)
    with nth [OF j] nth [OF lt]
    have "fcard (fmdom (sessions (ws ! j))) \<noteq> fcard (fmdom (sessions (ws ! nat workerId)))" by simp
    with a [OF j] show ?thesis by simp
  qed
  from nn lt a b show ?thesis by blast
qed

lemma on_start_throws:
  "getWorkerId ws (deviceId sd) = Inl e \<Longrightarrow> on_start_livestream ws sd = Inl (e, ws, [])"
  by (simp add: on_start_livestream_def)

lemma on_start_known:
  "getWorkerId ws (deviceId sd) = Inr i \<Longrightarrow> 0 \<le> i \<Longrightarrow> on_start_livestream ws sd = Inr (ws, [])"
  by (simp add: on_start_livestream_def)

lemma on_start_fresh:
  assumes "ws \<noteq> []" and "getWorkerId ws (deviceId sd) = Inr i" and "i < 0"
  shows "\<exists>w<length ws.
           on_start_livestream ws sd =
             Inr (ws[w := (ws ! w)\<lparr>sessions :=
                     set_property (sessions (ws ! w)) (deviceId sd) \<lparr>streamData = Some sd\<rparr>\<rparr>],
                  [PostMessage w ''start'' (Some sd)]) \<and>
           (\<forall>j<length ws. fcard (fmdom (sessions (ws ! w))) \<le> fcard (fmdom (sessions (ws ! j)))) \<and>
           (\<forall>j<w. fcard (fmdom (sessions (ws ! w))) < fcard (fmdom (sessions (ws ! j))))"
proof -
  let ?i = "indexOf (map (\<lambda>worker. enat (load worker)) ws)
              (Math_min (map (\<lambda>worker. enat (load worker)) ws))"
  from placement [OF assms(1)]
  have p: "0 \<le> ?i" "nat ?i < length ws"
    "\<forall>j<length ws. fcard (fmdom (sessions (ws ! nat ?i))) \<le> fcard (fmdom (sessions (ws ! j)))"
    "\<forall>j<nat ?i. fcard (fmdom (sessions (ws ! nat ?i))) < fcard (fmdom (sessions (ws ! j)))"
    by simp_all
  have "on_start_livestream ws sd =
          Inr (ws[nat ?i := (ws ! nat ?i)\<lparr>sessions :=
                  set_property (sessions (ws ! nat ?i)) (deviceId sd) \<lparr>streamData = Some sd\<rparr>\<rparr>],
               [PostMessage (nat ?i) ''start'' (Some sd)])"
    using assms(2,3) elem_at_nat [OF p(1) p(2)] by (simp add: on_start_livestream_def Let_def)
  with p show ?thesis by blast
qed

lemma on_start_empty:
  "on_start_livestream [] sd = Inl (TypeError, [], [])"
  by (simp add: on_start_livestream_def getWorkerId_def Math_min_def elem_at_def)

lemma on_stop_throws:
  "getWorkerId ws (deviceId sd) = Inl e \<Longrightarrow> on_stop_livestream ws sd = Inl (e, ws, [])"
  by (simp add: on_stop_livestream_def)

lemma on_stop_unknown:
  "getWorkerId ws (deviceId sd) = Inr i \<Longrightarrow> i < 0 \<Longrightarrow>
   on_stop_livestream ws sd = Inr (ws, [Emit (''livestream_'' @ deviceId sd) ''inactive''])"
  by (simp add: on_stop_livestream_def)

lemma on_stop_known:
  assumes "getWorkerId ws (deviceId sd) = Inr i" and "0 \<le> i"
  shows "\<exists>r. fmlookup (sessions (ws ! nat i)) (deviceId sd) = Some r \<and>
             on_stop_livestream ws sd = Inr (ws, [PostMessage (nat i) ''stop'' (streamData r)])"
proof -
  from getWorkerId_found [OF assms]
  have lt: "nat i < length ws" and own: "deviceId sd |\<in>| fmdom (sessions (ws ! nat i))"
    by simp_all
  from own obtain r where r: "fmlookup (sessions (ws ! nat i)) (deviceId sd) = Some r"
    by (auto simp: fmlookup_dom_iff)
  with assms elem_at_nat [OF assms(2) lt] show ?thesis
    by (simp add: on_stop_livestream_def)
qed

lemma on_message_throws:
  "getWorkerId ws (lc_deviceId (liveCallData data)) = Inl e \<Longrightarrow>
   on_message ws data = Inl (e, ws, [])"
  by (simp add: on_message_def Let_def)

lemma on_message_unknown:
  "getWorkerId ws (lc_deviceId (liveCallData data)) = Inr i \<Longrightarrow> i < 0 \<Longrightarrow>
   on_message ws data = Inr (ws, [])"
  by (simp add: on_message_def Let_def)

lemma on_message_other:
  assumes "getWorkerId ws (lc_deviceId (liveCallData data)) = Inr i"
    and "state data \<noteq> ''active''" "state data \<noteq> ''inactive''" "state data \<noteq> ''failed''"
  shows "on_message ws data = Inr (ws, [])"
  using assms by (simp add: on_message_def Let_def)

lemma on_message_active:
  assumes "getWorkerId ws (lc_deviceId (liveCallData data)) = Inr i" and "0 \<le> i"
    and "state data = ''active''"
  shows "\<exists>r. fmlookup (sessions (ws ! nat i)) (lc_deviceId (liveCallData data)) = Some r \<and>
           on_message ws data =
             (case streamData r of
                None \<Rightarrow>
                  Inl (TypeError, ws, [Emit (''livestream_'' @ lc_deviceId (liveCallData data)) ''active''])
              | Some p \<Rightarrow>
                  Inr (ws[nat i := (ws ! nat i)
                        \<lparr>sessions := fmupd (lc_deviceId (liveCallData data))
                           (r\<lparr>streamData := Some (p\<lparr>sessionId := lc_sessionId (liveCallData data)\<rparr>)\<rparr>)
                           (sessions (ws ! nat i))\<rparr>],
                       [Emit (''livestream_'' @ lc_deviceId (liveCallData data)) ''active'']))"
proof -
  let ?k = "lc_deviceId (liveCallData data)"
  from getWorkerId_found [OF assms(1,2)]
  have lt: "nat i < length ws" and own: "?k |\<in>| fmdom (sessions (ws ! nat i))"
    by simp_all
  from own obtain r where r: "fmlookup (sessions (ws ! nat i)) ?k = Some r"
    by (auto simp: fmlookup_dom_iff)
  with assms elem_at_nat [OF assms(2) lt] show ?thesis
    by (simp add: on_message_def Let_def split: option.splits)
qed

lemma on_message_terminal:
  assumes "getWorkerId ws (lc_deviceId (liveCallData data)) = Inr i" and "0 \<le> i"
    and "state data = ''inactive'' \<or> state data = ''failed''"
  shows "on_message ws data =
           Inr (ws[nat i := (ws ! nat i)
                  \<lparr>sessions := fmdrop (lc_deviceId (liveCallData data)) (sessions (ws ! nat i))\<rparr>],
                [Emit (''livestream_'' @ lc_deviceId (liveCallData data)) (state data)])"
proof -
  from getWorkerId_found [OF assms(1,2)] have lt: "nat i < length ws" by simp
  from assms elem_at_nat [OF assms(2) lt] show ?thesis
    by (auto simp: on_message_def Let_def)
qed

subsection \<open>What a listener that returns has done\<close>

lemma start_returned:
  assumes "on_start_livestream ws sd = Inr (ws', out)"
  shows "(owners ws (deviceId sd) \<noteq> [] \<and> ws' = ws \<and> out = []) \<or>
         (owners ws (deviceId sd) = [] \<and>
          (\<exists>w<length ws.
             ws' = ws[w := (ws ! w)\<lparr>sessions :=
                     set_property (sessions (ws ! w)) (deviceId sd) \<lparr>streamData = Some sd\<rparr>\<rparr>] \<and>
             out = [PostMessage w ''start'' (Some sd)]))"
proof (cases "getWorkerId ws (deviceId sd)")
  case (Inl e)
  with assms show ?thesis by (simp add: on_start_throws)
next
  case (Inr i)
  show ?thesis
  proof (cases "i < 0")
    case True
    from getWorkerId_neg [OF Inr True] have fresh: "owners ws (deviceId sd) = []" by simp
    have ne: "ws \<noteq> []" using assms by (auto simp: on_start_empty)
    from on_start_fresh [OF ne Inr True] assms fresh show ?thesis by auto
  next
    case False
    then have nn: "0 \<le> i" by simp
    from getWorkerId_found [OF Inr nn] have "owners ws (deviceId sd) \<noteq> []"
      by (auto simp: owners_Nil_iff)
    with on_start_known [OF Inr nn] assms show ?thesis by simp
  qed
qed

lemma stop_returned:
  assumes "on_stop_livestream ws sd = Inr (ws', out)"
  shows "ws' = ws \<and> filter (start_command_for k) out = []"
proof (cases "getWorkerId ws (deviceId sd)")
  case (Inl e)
  with assms show ?thesis by (simp add: on_stop_throws)
next
  case (Inr i)
  show ?thesis
  proof (cases "i < 0")
    case True
    from on_stop_unknown [OF Inr True] assms show ?thesis by auto
  next
    case False
    then have nn: "0 \<le> i" by simp
    from on_stop_known [OF Inr nn] assms show ?thesis by auto
  qed
qed

lemma message_returned:
  assumes "on_message ws data = Inr (ws', out)"
  shows "(ws' = ws \<and> out = [] \<and>
          (owners ws (lc_deviceId (liveCallData data)) = [] \<or>
           state data \<notin> {''active'', ''inactive'', ''failed''})) \<or>
         (\<exists>w r p. state data = ''active'' \<and> w < length ws \<and>
            fmlookup (sessions (ws ! w)) (lc_deviceId (liveCallData data)) = Some r \<and>
            streamData r = Some p \<and>
            (\<forall>j<w. lc_deviceId (liveCallData data) |\<notin>| fmdom (sessions (ws ! j))) \<and>
            ws' = ws[w := (ws ! w)\<lparr>sessions := fmupd (lc_deviceId (liveCallData data))
                      (r\<lparr>streamData := Some (p\<lparr>sessionId := lc_sessionId (liveCallData data)\<rparr>)\<rparr>)
                      (sessions (ws ! w))\<rparr>] \<and>
            out = [Emit (''livestream_'' @ lc_deviceId (liveCallData data)) ''active'']) \<or>
         (\<exists>w. state data \<in> {''inactive'', ''failed''} \<and> w < length ws \<and>
            lc_deviceId (liveCallData data) |\<in>| fmdom (sessions (ws ! w)) \<and>
            (\<forall>j<w. lc_deviceId (liveCallData data) |\<notin>| fmdom (sessions (ws ! j))) \<and>
            ws' = ws[w := (ws ! w)\<lparr>sessions :=
                      fmdrop (lc_deviceId (liveCallData data)) (sessions (ws ! w))\<rparr>] \<and>
            out = [Emit (''livestream_'' @ lc_deviceId (liveCallData data)) (state data)])"
proof -
  let ?k = "lc_deviceId (liveCallData data)"
  show ?thesis
  proof (cases "getWorkerId ws ?k")
    case (Inl e)
    with assms show ?thesis by (simp add: on_message_throws)
  next
    case (Inr i)
    show ?thesis
    proof (cases "i < 0")
      case True
      from getWorkerId_neg [OF Inr True] have "owners ws ?k = []" by simp
      with on_message_unknown [OF Inr True] assms show ?thesis by simp
    next
      case False
      then have nn: "0 \<le> i" by simp
      from getWorkerId_found [OF Inr nn]
      have w: "nat i < length ws" and own: "?k |\<in>| fmdom (sessions (ws ! nat i))"
        and first: "\<forall>j<nat i. ?k |\<notin>| fmdom (sessions (ws ! j))" by simp_all
      consider (a) "state data = ''active''"
        | (t) "state data = ''inactive'' \<or> state data = ''failed''"
        | (o) "state data \<noteq> ''active''" "state data \<noteq> ''inactive''" "state data \<noteq> ''failed''"
        by blast
      then show ?thesis
      proof cases
        case a
        from on_message_active [OF Inr nn a] obtain r where
          r: "fmlookup (sessions (ws ! nat i)) ?k = Some r" and
          m: "on_message ws data =
             (case streamData r of
                None \<Rightarrow> Inl (TypeError, ws, [Emit (''livestream_'' @ ?k) ''active''])
              | Some p \<Rightarrow>
                  Inr (ws[nat i := (ws ! nat i)
                        \<lparr>sessions := fmupd ?k
                           (r\<lparr>streamData := Some (p\<lparr>sessionId := lc_sessionId (liveCallData data)\<rparr>)\<rparr>)
                           (sessions (ws ! nat i))\<rparr>],
                       [Emit (''livestream_'' @ ?k) ''active'']))"
          by blast
        from m assms obtain p where p: "streamData r = Some p"
          by (cases "streamData r") auto
        from m p assms have
          "ws' = ws[nat i := (ws ! nat i)
                        \<lparr>sessions := fmupd ?k
                           (r\<lparr>streamData := Some (p\<lparr>sessionId := lc_sessionId (liveCallData data)\<rparr>)\<rparr>)
                           (sessions (ws ! nat i))\<rparr>]"
          "out = [Emit (''livestream_'' @ ?k) ''active'']"
          by simp_all
        with a w r p first show ?thesis by blast
      next
        case t
        from on_message_terminal [OF Inr nn t] assms have
          "ws' = ws[nat i := (ws ! nat i)\<lparr>sessions := fmdrop ?k (sessions (ws ! nat i))\<rparr>]"
          "out = [Emit (''livestream_'' @ ?k) (state data)]"
          by simp_all
        moreover from t have "state data \<in> {''inactive'', ''failed''}" by simp
        ultimately show ?thesis using w own first by blast
      next
        case o
        from on_message_other [OF Inr o] assms o show ?thesis by simp
      qed
    qed
  qed
qed

subsection \<open>A run of events\<close>

lemma run_Cons_Inr:
  "run ws (e # es) = Inr (ws', out) \<longleftrightarrow>
     (\<exists>ws1 o1 o2. dispatch ws e = Inr (ws1, o1) \<and> run ws1 es = Inr (ws', o2) \<and> out = o1 @ o2)"
  by (auto simp del: dispatch.simps split: sum.splits prod.splits)

lemma run_append_Inr:
  "run ws (es @ es') = Inr (ws', out) \<longleftrightarrow>
     (\<exists>ws1 o1 o2. run ws es = Inr (ws1, o1) \<and> run ws1 es' = Inr (ws', o2) \<and> out = o1 @ o2)"
proof (induction es arbitrary: ws out)
  case Nil
  then show ?case by simp
next
  case (Cons e es)
  show ?case
    unfolding append_Cons run_Cons_Inr Cons.IH by (auto simp del: dispatch.simps)
qed

lemma run_single: "run ws [e] = dispatch ws e"
  by (auto simp del: dispatch.simps split: sum.splits prod.splits)

lemma run_snoc_Inr:
  "run ws (es @ [e]) = Inr (ws', out) \<longleftrightarrow>
     (\<exists>ws1 o1 o2. run ws es = Inr (ws1, o1) \<and> dispatch ws1 e = Inr (ws', o2) \<and> out = o1 @ o2)"
  unfolding run_append_Inr run_single ..

lemma dispatch_length: "dispatch ws e = Inr (ws', out) \<Longrightarrow> length ws' = length ws"
proof (cases e)
  case (Start_livestream sd)
  assume "dispatch ws e = Inr (ws', out)"
  with Start_livestream start_returned [of ws sd ws' out] show ?thesis by auto
next
  case (Stop_livestream sd)
  assume "dispatch ws e = Inr (ws', out)"
  with Stop_livestream stop_returned [of ws sd ws' out] show ?thesis by auto
next
  case (Message data)
  assume "dispatch ws e = Inr (ws', out)"
  with Message message_returned [of ws data ws' out] show ?thesis by auto
qed

lemma run_length: "run ws es = Inr (ws', out) \<Longrightarrow> length ws' = length ws"
proof (induction es arbitrary: ws out)
  case Nil
  then show ?case by simp
next
  case (Cons e es)
  from Cons.prems obtain ws1 o1 o2 where
    d: "dispatch ws e = Inr (ws1, o1)" and r: "run ws1 es = Inr (ws', o2)"
    unfolding run_Cons_Inr by blast
  from Cons.IH [OF r] dispatch_length [OF d] show ?case by simp
qed

lemma run_invariant:
  assumes step: "\<And>ws e ws' out. P ws \<Longrightarrow> dispatch ws e = Inr (ws', out) \<Longrightarrow> P ws'"
  shows "P ws \<Longrightarrow> run ws es = Inr (ws', out) \<Longrightarrow> P ws'"
proof (induction es arbitrary: ws out)
  case Nil
  then show ?case by simp
next
  case (Cons e es)
  from Cons.prems(2) obtain ws1 o1 o2 where
    d: "dispatch ws e = Inr (ws1, o1)" and r: "run ws1 es = Inr (ws', o2)"
    unfolding run_Cons_Inr by blast
  from step [OF Cons.prems(1) d] have "P ws1" .
  from Cons.IH [OF this r] show ?case .
qed

subsection \<open>What every listener preserves\<close>

lemma sessions_update_nth:
  "i < length ws \<Longrightarrow>
   sessions ((ws[w := (ws ! w)\<lparr>sessions := m\<rparr>]) ! i) = (if i = w then m else sessions (ws ! i))"
  by (simp add: nth_list_update)

lemma update_same: "w < length ws \<Longrightarrow> ws[w := (ws ! w)\<lparr>sessions := sessions (ws ! w)\<rparr>] = ws"
  by (simp add: list_update_same_conv)

lemma unique_owner_insert:
  assumes inv: "unique_owner ws" and w: "w < length ws" and fresh: "owners ws k = []"
  shows "unique_owner (ws[w := (ws ! w)\<lparr>sessions := fmupd k r (sessions (ws ! w))\<rparr>])"
    (is "unique_owner ?ws'")
  unfolding unique_owner_def
proof (intro allI impI)
  fix i j k'
  assume "i < length ?ws'" and "j < length ?ws'"
    and ki: "k' |\<in>| fmdom (sessions (?ws' ! i))" and kj: "k' |\<in>| fmdom (sessions (?ws' ! j))"
  then have i: "i < length ws" and j: "j < length ws" by simp_all
  from fresh have none: "\<And>n. n < length ws \<Longrightarrow> k |\<notin>| fmdom (sessions (ws ! n))"
    by (simp add: owners_Nil_iff)
  show "i = j"
  proof (cases "k' = k")
    case True
    from ki i none [OF i] True have "i = w"
      by (auto simp: sessions_update_nth split: if_splits)
    moreover from kj j none [OF j] True have "j = w"
      by (auto simp: sessions_update_nth split: if_splits)
    ultimately show ?thesis by simp
  next
    case False
    from ki i False have "k' |\<in>| fmdom (sessions (ws ! i))"
      by (auto simp: sessions_update_nth split: if_splits)
    moreover from kj j False have "k' |\<in>| fmdom (sessions (ws ! j))"
      by (auto simp: sessions_update_nth split: if_splits)
    ultimately show ?thesis
      using inv i j unfolding unique_owner_def by blast
  qed
qed

lemma unique_owner_shrink:
  assumes inv: "unique_owner ws" and w: "w < length ws"
    and sub: "fmdom m |\<subseteq>| fmdom (sessions (ws ! w))"
  shows "unique_owner (ws[w := (ws ! w)\<lparr>sessions := m\<rparr>])" (is "unique_owner ?ws'")
  unfolding unique_owner_def
proof (intro allI impI)
  fix i j k
  assume "i < length ?ws'" and "j < length ?ws'"
    and ki: "k |\<in>| fmdom (sessions (?ws' ! i))" and kj: "k |\<in>| fmdom (sessions (?ws' ! j))"
  then have i: "i < length ws" and j: "j < length ws" by simp_all
  from ki i sub have "k |\<in>| fmdom (sessions (ws ! i))"
    by (auto simp: sessions_update_nth split: if_splits)
  moreover from kj j sub have "k |\<in>| fmdom (sessions (ws ! j))"
    by (auto simp: sessions_update_nth split: if_splits)
  ultimately show "i = j"
    using inv i j unfolding unique_owner_def by blast
qed

lemma unique_owner_step:
  fixes ws :: "('c, 'p) pool"
  assumes inv: "unique_owner ws" and d: "dispatch ws e = Inr (ws', out)"
  shows "unique_owner ws'"
proof (cases e)
  case (Start_livestream sd)
  with d have "on_start_livestream ws sd = Inr (ws', out)" by simp
  from start_returned [OF this] show ?thesis
  proof (elim disjE conjE exE)
    assume "ws' = ws"
    with inv show ?thesis by simp
  next
    fix w
    assume fresh: "owners ws (deviceId sd) = []" and w: "w < length ws"
      and ws': "ws' = ws[w := (ws ! w)\<lparr>sessions :=
                     set_property (sessions (ws ! w)) (deviceId sd) \<lparr>streamData = Some sd\<rparr>\<rparr>]"
    show ?thesis
    proof (cases "deviceId sd = ''__proto__''")
      case True
      with ws' w have "ws' = ws" by (simp add: set_property_def update_same)
      with inv show ?thesis by simp
    next
      case False
      with ws' unique_owner_insert [OF inv w fresh] show ?thesis
        by (simp add: set_property_def)
    qed
  qed
next
  case (Stop_livestream sd)
  with d have "on_stop_livestream ws sd = Inr (ws', out)" by simp
  from stop_returned [OF this] inv show ?thesis by simp
next
  case (Message data)
  with d have "on_message ws data = Inr (ws', out)" by simp
  from message_returned [OF this] show ?thesis
  proof (elim disjE conjE exE)
    assume "ws' = ws"
    with inv show ?thesis by simp
  next
    assume "ws' = ws"
    with inv show ?thesis by simp
  next
    fix w r p
    assume w: "w < length ws"
      and r: "fmlookup (sessions (ws ! w)) (lc_deviceId (liveCallData data)) = Some r"
      and ws': "ws' = ws[w := (ws ! w)\<lparr>sessions := fmupd (lc_deviceId (liveCallData data))
                      (r\<lparr>streamData := Some (p\<lparr>sessionId := lc_sessionId (liveCallData data)\<rparr>)\<rparr>)
                      (sessions (ws ! w))\<rparr>]"
    from r have "lc_deviceId (liveCallData data) |\<in>| fmdom (sessions (ws ! w))"
      by (rule fmdomI)
    then have "fmdom (fmupd (lc_deviceId (liveCallData data))
                      (r\<lparr>streamData := Some (p\<lparr>sessionId := lc_sessionId (liveCallData data)\<rparr>)\<rparr>)
                      (sessions (ws ! w))) |\<subseteq>| fmdom (sessions (ws ! w))" by auto
    from unique_owner_shrink [OF inv w this] ws' show ?thesis by simp
  next
    fix w
    assume w: "w < length ws"
      and ws': "ws' = ws[w := (ws ! w)\<lparr>sessions :=
                      fmdrop (lc_deviceId (liveCallData data)) (sessions (ws ! w))\<rparr>]"
    have "fmdom (fmdrop (lc_deviceId (liveCallData data)) (sessions (ws ! w)))
            |\<subseteq>| fmdom (sessions (ws ! w))" by auto
    from unique_owner_shrink [OF inv w this] ws' show ?thesis by simp
  qed
qed

lemma unique_owner_init: "unique_owner (init c)"
  by (simp add: unique_owner_def init_def)

lemma run_unique_owner:
  "unique_owner ws \<Longrightarrow> run ws es = Inr (ws', out) \<Longrightarrow> unique_owner ws'"
  by (rule run_invariant [where P = unique_owner, OF unique_owner_step])




subsection \<open>The record of a key, from one event to the next\<close>

lemma payload_after_append:
  "payload_after k p (es @ es') = payload_after k (payload_after k p es) es'"
proof (induction es arbitrary: p)
  case Nil
  then show ?case by simp
next
  case (Cons e es)
  then show ?case by (cases e) simp_all
qed

lemma payload_after_deviceId: "deviceId (payload_after k p es) = deviceId p"
proof (induction es arbitrary: p)
  case Nil
  then show ?case by simp
next
  case (Cons e es)
  then show ?case by (cases e) simp_all
qed

lemma entry_kept:
  fixes ws :: "('c, 'p) pool"
  assumes d: "dispatch ws e = Inr (ws', out)" and inv: "unique_owner ws" and i: "i < length ws"
    and old: "fmlookup (sessions (ws ! i)) k = Some r"
  shows "fmlookup (sessions (ws' ! i)) k =
           (if terminal_report_for k e then None
            else Some (r\<lparr>streamData := map_option (\<lambda>p. payload_after k p [e]) (streamData r)\<rparr>))"
proof -
  from old have ki: "k |\<in>| fmdom (sessions (ws ! i))" by (rule fmdomI)
  with i have reg: "owners ws k \<noteq> []" by (auto simp: owners_Nil_iff)
  have only: "w = i" if "w < length ws" "k |\<in>| fmdom (sessions (ws ! w))" for w
    using inv that i ki unfolding unique_owner_def by blast
  show ?thesis
  proof (cases e)
    case (Start_livestream sd)
    with d have "on_start_livestream ws sd = Inr (ws', out)" by simp
    from start_returned [OF this] show ?thesis
    proof (elim disjE conjE exE)
      assume "ws' = ws"
      with old Start_livestream show ?thesis by (simp add: option.map_ident)
    next
      fix w
      assume fresh: "owners ws (deviceId sd) = []" and w: "w < length ws"
        and ws': "ws' = ws[w := (ws ! w)\<lparr>sessions :=
                     set_property (sessions (ws ! w)) (deviceId sd) \<lparr>streamData = Some sd\<rparr>\<rparr>]"
      from fresh reg have "deviceId sd \<noteq> k" by auto
      with ws' i old Start_livestream show ?thesis
        by (auto simp: sessions_update_nth set_property_def option.map_ident)
    qed
  next
    case (Stop_livestream sd)
    with d have "on_stop_livestream ws sd = Inr (ws', out)" by simp
    from stop_returned [OF this] old Stop_livestream show ?thesis
      by (simp add: option.map_ident)
  next
    case (Message data)
    let ?k' = "lc_deviceId (liveCallData data)"
    from Message d have "on_message ws data = Inr (ws', out)" by simp
    from message_returned [OF this] show ?thesis
    proof (elim disjE conjE exE)
      assume same: "ws' = ws" and "owners ws ?k' = []"
      with reg have "?k' \<noteq> k" by auto
      with same old Message show ?thesis by (simp add: option.map_ident)
    next
      assume same: "ws' = ws" and "state data \<notin> {''active'', ''inactive'', ''failed''}"
      with old Message show ?thesis by (simp add: option.map_ident)
    next
      fix w r0 p
      assume a: "state data = ''active''" and w: "w < length ws"
        and r0: "fmlookup (sessions (ws ! w)) ?k' = Some r0" and p: "streamData r0 = Some p"
        and ws': "ws' = ws[w := (ws ! w)\<lparr>sessions := fmupd ?k'
                      (r0\<lparr>streamData := Some (p\<lparr>sessionId := lc_sessionId (liveCallData data)\<rparr>)\<rparr>)
                      (sessions (ws ! w))\<rparr>]"
      show ?thesis
      proof (cases "?k' = k")
        case True
        from r0 True have "k |\<in>| fmdom (sessions (ws ! w))" by (auto intro: fmdomI)
        from only [OF w this] have wi: "w = i" .
        with r0 True old have "r0 = r" by simp
        with ws' wi True i p a Message show ?thesis
          by (simp add: sessions_update_nth)
      next
        case False
        with ws' i old Message show ?thesis
          by (auto simp: sessions_update_nth option.map_ident)
      qed
    next
      fix w
      assume t: "state data \<in> {''inactive'', ''failed''}" and w: "w < length ws"
        and own: "?k' |\<in>| fmdom (sessions (ws ! w))"
        and ws': "ws' = ws[w := (ws ! w)\<lparr>sessions := fmdrop ?k' (sessions (ws ! w))\<rparr>]"
      show ?thesis
      proof (cases "?k' = k")
        case True
        with own have "k |\<in>| fmdom (sessions (ws ! w))" by simp
        from only [OF w this] have wi: "w = i" .
        with ws' True i t Message show ?thesis
          by (auto simp: sessions_update_nth)
      next
        case False
        with ws' i old Message show ?thesis
          by (auto simp: sessions_update_nth option.map_ident)
      qed
    qed
  qed
qed

lemma entry_new:
  fixes ws :: "('c, 'p) pool"
  assumes d: "dispatch ws e = Inr (ws', out)" and i: "i < length ws"
    and old: "fmlookup (sessions (ws ! i)) k = None"
    and new: "fmlookup (sessions (ws' ! i)) k = Some r'"
  shows "\<exists>sd. e = Start_livestream sd \<and> deviceId sd = k \<and> k \<noteq> ''__proto__'' \<and>
              owners ws k = [] \<and> r' = \<lparr>streamData = Some sd\<rparr>"
proof (cases e)
  case (Start_livestream sd)
  with d have "on_start_livestream ws sd = Inr (ws', out)" by simp
  from start_returned [OF this] show ?thesis
  proof (elim disjE conjE exE)
    assume "ws' = ws"
    with old new show ?thesis by simp
  next
    fix w
    assume fresh: "owners ws (deviceId sd) = []" and w: "w < length ws"
      and ws': "ws' = ws[w := (ws ! w)\<lparr>sessions :=
                     set_property (sessions (ws ! w)) (deviceId sd) \<lparr>streamData = Some sd\<rparr>\<rparr>]"
    from ws' i old new have "i = w \<and> deviceId sd = k \<and> deviceId sd \<noteq> ''__proto__'' \<and>
        r' = \<lparr>streamData = Some sd\<rparr>"
      by (auto simp: sessions_update_nth set_property_def split: if_splits)
    with fresh Start_livestream show ?thesis by auto
  qed
next
  case (Stop_livestream sd)
  with d have "on_stop_livestream ws sd = Inr (ws', out)" by simp
  from stop_returned [OF this] old new show ?thesis by simp
next
  case (Message data)
  let ?k' = "lc_deviceId (liveCallData data)"
  from Message d have "on_message ws data = Inr (ws', out)" by simp
  from message_returned [OF this] show ?thesis
  proof (elim disjE conjE exE)
    assume "ws' = ws"
    with old new show ?thesis by simp
  next
    assume "ws' = ws"
    with old new show ?thesis by simp
  next
    fix w r0 p
    assume w: "w < length ws"
      and r0: "fmlookup (sessions (ws ! w)) ?k' = Some r0"
      and ws': "ws' = ws[w := (ws ! w)\<lparr>sessions := fmupd ?k'
                      (r0\<lparr>streamData := Some (p\<lparr>sessionId := lc_sessionId (liveCallData data)\<rparr>)\<rparr>)
                      (sessions (ws ! w))\<rparr>]"
    from ws' i old new r0 show ?thesis
      by (auto simp: sessions_update_nth split: if_splits)
  next
    fix w
    assume ws': "ws' = ws[w := (ws ! w)\<lparr>sessions := fmdrop ?k' (sessions (ws ! w))\<rparr>]"
    from ws' i old new show ?thesis
      by (auto simp: sessions_update_nth split: if_splits)
  qed
qed

subsection \<open>Where the records of a reachable pool come from\<close>

lemma init_lookup:
  "i < length (init c :: ('c, 'p) pool) \<Longrightarrow>
   fmlookup (sessions ((init c :: ('c, 'p) pool) ! i)) k = None"
  by (simp add: init_def)

lemma run_init_origin:
  fixes ws :: "('c, 'p) pool"
  assumes "run (init c) es = Inr (ws, out)" and "i < length ws"
    and "fmlookup (sessions (ws ! i)) k = Some r"
  shows "\<exists>es1 sd es2 ws1 o1.
           es = es1 @ Start_livestream sd # es2 \<and> deviceId sd = k \<and> k \<noteq> ''__proto__'' \<and>
           run (init c) es1 = Inr (ws1, o1) \<and> owners ws1 k = [] \<and>
           (\<forall>e\<in>set es2. \<not> terminal_report_for k e) \<and>
           streamData r = Some (payload_after k sd es2)"
  using assms
proof (induction es arbitrary: ws out r rule: rev_induct)
  case Nil
  then have "ws = init c" by simp
  with Nil.prems(2,3) init_lookup [of i c k, where ?'c = 'c and ?'p = 'p] show ?case by simp
next
  case (snoc e es)
  from snoc.prems(1) obtain ws1 o1 o2 where
    r1: "run (init c) es = Inr (ws1, o1)" and d: "dispatch ws1 e = Inr (ws, o2)"
    unfolding run_snoc_Inr by blast
  have inv: "unique_owner ws1"
    by (rule run_unique_owner [OF unique_owner_init r1])
  from dispatch_length [OF d] snoc.prems(2) have i1: "i < length ws1" by simp
  show ?case
  proof (cases "fmlookup (sessions (ws1 ! i)) k")
    case None
    from entry_new [OF d i1 None snoc.prems(3)] obtain sd where
      "e = Start_livestream sd" "deviceId sd = k" "k \<noteq> ''__proto__''" "owners ws1 k = []"
      "r = \<lparr>streamData = Some sd\<rparr>" by blast
    with r1 have "es @ [e] = es @ Start_livestream sd # [] \<and> deviceId sd = k \<and>
        k \<noteq> ''__proto__'' \<and> run (init c) es = Inr (ws1, o1) \<and> owners ws1 k = [] \<and>
        (\<forall>e\<in>set []. \<not> terminal_report_for k e) \<and> streamData r = Some (payload_after k sd [])"
      by simp
    then show ?thesis by blast
  next
    case (Some r0)
    from entry_kept [OF d inv i1 Some] snoc.prems(3)
    have nt: "\<not> terminal_report_for k e"
      and r: "r = r0\<lparr>streamData := map_option (\<lambda>p. payload_after k p [e]) (streamData r0)\<rparr>"
      by (auto split: if_splits)
    from snoc.IH [OF r1 i1 Some] obtain es1 sd es2 ws0 o0 where
      es: "es = es1 @ Start_livestream sd # es2" and k: "deviceId sd = k" "k \<noteq> ''__proto__''"
      and acc: "run (init c) es1 = Inr (ws0, o0)" "owners ws0 k = []"
      and quiet: "\<forall>e\<in>set es2. \<not> terminal_report_for k e"
      and p0: "streamData r0 = Some (payload_after k sd es2)"
      by blast
    from r p0 have "streamData r = Some (payload_after k sd (es2 @ [e]))"
      by (simp add: payload_after_append)
    with es k acc quiet nt have "es @ [e] = es1 @ Start_livestream sd # (es2 @ [e]) \<and>
        deviceId sd = k \<and> k \<noteq> ''__proto__'' \<and> run (init c) es1 = Inr (ws0, o0) \<and>
        owners ws0 k = [] \<and> (\<forall>e\<in>set (es2 @ [e]). \<not> terminal_report_for k e) \<and>
        streamData r = Some (payload_after k sd (es2 @ [e]))"
      by simp
    then show ?thesis by blast
  qed
qed


subsection \<open>While no dictionary has the key hasOwnProperty\<close>









subsection \<open>A listener that throws\<close>

text \<open>Every throw comes before the first write: the pool at a throw is the pool the
  listener was called with. So the pools reached by runs in which some listener threw,
  and the events went on, are the pools reached by the runs without those events.\<close>

lemma throw_keeps_pool:
  "dispatch ws e = Inl (x, ws', out) \<Longrightarrow> ws' = ws"
proof (cases e)
  case (Start_livestream sd)
  assume "dispatch ws e = Inl (x, ws', out)"
  with Start_livestream show ?thesis
    by (auto simp: on_start_livestream_def Let_def split: sum.splits if_splits option.splits)
next
  case (Stop_livestream sd)
  assume "dispatch ws e = Inl (x, ws', out)"
  with Stop_livestream show ?thesis
    by (auto simp: on_stop_livestream_def split: sum.splits if_splits option.splits)
next
  case (Message data)
  assume "dispatch ws e = Inl (x, ws', out)"
  with Message show ?thesis
    by (auto simp: on_message_def Let_def split: sum.splits if_splits option.splits)
qed

subsection \<open>The examples, evaluated\<close>

lemmas ex_simps = example_worker_def example_payload_def example_report_def

lemmas eval_simps =
  on_start_livestream_def on_stop_livestream_def on_message_def getWorkerId_def
  hasOwnProperty_def set_property_def load_def Math_min_def elem_at_def owners_def Let_def
  fcard_finsert_if fmdrop_fmupd_same ex_simps

lemma init_3: "init 3 = [example_worker [], example_worker []]"
  by (simp add: init_def numWorkers_div example_worker_def numeral_2_eq_2)


lemma ex_start_A:
  "on_start_livestream [example_worker [], example_worker []] (example_payload ''A'' 0) =
     Inr ([example_worker [(''A'', 0)], example_worker []],
          [PostMessage 0 ''start'' (Some (example_payload ''A'' 0))])"
  by (simp add: eval_simps)

lemma ex_start_B:
  "on_start_livestream [example_worker [(''A'', 0)], example_worker []] (example_payload ''B'' 0) =
     Inr ([example_worker [(''A'', 0)], example_worker [(''B'', 0)]],
          [PostMessage 1 ''start'' (Some (example_payload ''B'' 0))])"
  by (simp add: eval_simps)


lemma ex_active_A:
  "on_message [example_worker [(''A'', 0)], example_worker [(''B'', 0)]] (example_report ''active'' ''A'' 7) =
     Inr ([example_worker [(''A'', 7)], example_worker [(''B'', 0)]], [Emit ''livestream_A'' ''active''])"
  by (simp add: eval_simps)



lemma ex_stop_A:
  "on_stop_livestream [example_worker [(''A'', 7)], example_worker [(''B'', 0)]] (example_payload ''A'' 5) =
     Inr ([example_worker [(''A'', 7)], example_worker [(''B'', 0)]],
          [PostMessage 0 ''stop'' (Some (example_payload ''A'' 7))])"
  by (simp add: eval_simps)

lemma ex_stop_B:
  "on_stop_livestream [example_worker [(''A'', 0)], example_worker []] (example_payload ''B'' 0) =
     Inr ([example_worker [(''A'', 0)], example_worker []], [Emit ''livestream_B'' ''inactive''])"
  by (simp add: eval_simps)

lemma ex_inactive_A:
  "on_message [example_worker [(''A'', 7)], example_worker [(''B'', 0)]] (example_report ''inactive'' ''A'' 9) =
     Inr ([example_worker [], example_worker [(''B'', 0)]], [Emit ''livestream_A'' ''inactive''])"
  by (simp add: eval_simps)

lemma ex_failed_C:
  "on_message [example_worker [(''A'', 0)], example_worker [(''B'', 0)]] (example_report ''failed'' ''C'' 1) =
     Inr ([example_worker [(''A'', 0)], example_worker [(''B'', 0)]], [])"
  by (simp add: eval_simps)

lemma ex_run:
  "run (init 3) [Start_livestream (example_payload ''A'' 0), Start_livestream (example_payload ''B'' 0),
     Message (example_report ''active'' ''A'' 7)] =
   Inr ([example_worker [(''A'', 7)], example_worker [(''B'', 0)]],
     [PostMessage 0 ''start'' (Some (example_payload ''A'' 0)),
      PostMessage 1 ''start'' (Some (example_payload ''B'' 0)),
      Emit ''livestream_A'' ''active''])"
  by (simp add: init_3 ex_start_A ex_start_B ex_active_A)









section \<open>The claims\<close>






text \<open>
  C3, as stated, fails: with five cores the code starts four workers, while
  \<open>min(4, round(5/1.5)) = min(4, 3) = 3\<close>.
\<close>

theorem C3_five_cores_counterexample:
  "(1::int) \<le> 5 \<and> numWorkers 5 = 4 \<and> numWorkers_spec 5 = 3 \<and>
   length (init 5 :: (nat, unit) pool) \<noteq> nat (numWorkers_spec 5)"
  by (simp add: numWorkers_div numWorkers_spec_div length_init)

text \<open>
  C3, amended. For every core count \<open>c \<ge> 1\<close> the number of workers started is
  \<open>min(4, round(c/1.5))\<close>, except for \<open>c = 5\<close>, where it is 4 (every count above 4
  gives 4 workers without rounding); it is the length of the pool, and it is at
  least 1 and at most 4.
\<close>

theorem C3_numWorkers:
  assumes "1 \<le> c"
  shows "numWorkers c = (if c = 5 then 4 else numWorkers_spec c) \<and>
         length (init c :: ('c, 'p) pool) = nat (numWorkers c) \<and>
         1 \<le> numWorkers c \<and> numWorkers c \<le> 4"
  using assms unfolding numWorkers_div numWorkers_spec_div length_init by auto

text \<open>C3 at an example.\<close>

theorem C3_numWorkers_witness:
  "(1::int) \<le> 3 \<and> numWorkers 3 = (if (3::int) = 5 then 4 else numWorkers_spec 3) \<and>
   length (init 3 :: (nat, unit) pool) = nat (numWorkers 3) \<and>
   1 \<le> numWorkers 3 \<and> numWorkers 3 \<le> 4 \<and> numWorkers 3 = 2"
  using C3_numWorkers [of 3, where ?'c = nat and ?'p = unit]
  by (simp add: numWorkers_div)



















text \<open>
  C10. In every state the pool reaches from its initial state, every session record in a
  dictionary has its payload: it is the payload of the start that registered the key the
  record is stored under (the start for that key handled when no worker had the key, with
  no message reporting \<^verbatim>\<open>inactive\<close> or \<^verbatim>\<open>failed\<close> for the key after it), with the
  \<^verbatim>\<open>sessionId\<close> of the last \<^verbatim>\<open>active\<close> message for the key since, if there was one.
  Therefore, whenever the lookup returns a worker for a device id, the stop listener
  finds the record and posts its payload, and the message listener returns, in the
  \<^verbatim>\<open>active\<close> case after writing into the payload: neither throws.
\<close>

theorem C10_records_present:
  fixes ws :: "('c, 'p) pool"
  assumes "run (init c) es = Inr (ws, out)"
  shows "(\<forall>i<length ws. \<forall>k r. fmlookup (sessions (ws ! i)) k = Some r \<longrightarrow>
            (\<exists>es1 sd es2 ws1 o1.
               es = es1 @ Start_livestream sd # es2 \<and> deviceId sd = k \<and>
               run (init c) es1 = Inr (ws1, o1) \<and> owners ws1 k = [] \<and>
               (\<forall>e\<in>set es2. \<not> terminal_report_for k e) \<and>
               streamData r = Some (payload_after k sd es2))) \<and>
         (\<forall>req i. getWorkerId ws (deviceId req) = Inr i \<longrightarrow> 0 \<le> i \<longrightarrow>
            (\<exists>r p. fmlookup (sessions (ws ! nat i)) (deviceId req) = Some r \<and>
               streamData r = Some p \<and>
               on_stop_livestream ws req = Inr (ws, [PostMessage (nat i) ''stop'' (Some p)]))) \<and>
         (\<forall>data i. getWorkerId ws (lc_deviceId (liveCallData data)) = Inr i \<longrightarrow> 0 \<le> i \<longrightarrow>
            (\<exists>ws' out'. on_message ws data = Inr (ws', out')))"
proof -
  have a: "\<exists>es1 sd es2 ws1 o1.
               es = es1 @ Start_livestream sd # es2 \<and> deviceId sd = k \<and>
               run (init c) es1 = Inr (ws1, o1) \<and> owners ws1 k = [] \<and>
               (\<forall>e\<in>set es2. \<not> terminal_report_for k e) \<and>
               streamData r = Some (payload_after k sd es2)"
    if "i < length ws" "fmlookup (sessions (ws ! i)) k = Some r" for i k r
    using run_init_origin [OF assms that] by blast
  have b: "\<exists>r p. fmlookup (sessions (ws ! nat i)) (deviceId req) = Some r \<and>
               streamData r = Some p \<and>
               on_stop_livestream ws req = Inr (ws, [PostMessage (nat i) ''stop'' (Some p)])"
    if l: "getWorkerId ws (deviceId req) = Inr i" and nn: "0 \<le> i" for req i
  proof -
    from getWorkerId_found [OF l nn] have w: "nat i < length ws" by simp
    from on_stop_known [OF l nn] obtain r where
      r: "fmlookup (sessions (ws ! nat i)) (deviceId req) = Some r" and
      s: "on_stop_livestream ws req = Inr (ws, [PostMessage (nat i) ''stop'' (streamData r)])"
      by blast
    from a [OF w r] obtain p where "streamData r = Some p" by blast
    with r s show ?thesis by simp
  qed
  have c: "\<exists>ws' out'. on_message ws data = Inr (ws', out')"
    if l: "getWorkerId ws (lc_deviceId (liveCallData data)) = Inr i" and nn: "0 \<le> i" for data i
  proof -
    from getWorkerId_found [OF l nn] have w: "nat i < length ws" by simp
    consider (a) "state data = ''active''"
      | (t) "state data = ''inactive'' \<or> state data = ''failed''"
      | (o) "state data \<noteq> ''active''" "state data \<noteq> ''inactive''" "state data \<noteq> ''failed''"
      by blast
    then show ?thesis
    proof cases
      case a
      from on_message_active [OF l nn a] obtain r where
        r: "fmlookup (sessions (ws ! nat i)) (lc_deviceId (liveCallData data)) = Some r" and
        m: "on_message ws data =
             (case streamData r of
                None \<Rightarrow>
                  Inl (TypeError, ws, [Emit (''livestream_'' @ lc_deviceId (liveCallData data)) ''active''])
              | Some p \<Rightarrow>
                  Inr (ws[nat i := (ws ! nat i)
                        \<lparr>sessions := fmupd (lc_deviceId (liveCallData data))
                           (r\<lparr>streamData := Some (p\<lparr>sessionId := lc_sessionId (liveCallData data)\<rparr>)\<rparr>)
                           (sessions (ws ! nat i))\<rparr>],
                       [Emit (''livestream_'' @ lc_deviceId (liveCallData data)) ''active'']))"
        by blast
      from \<open>\<And>i k r. i < length ws \<Longrightarrow> fmlookup (sessions (ws ! i)) k = Some r \<Longrightarrow> _\<close> [OF w r]
      obtain p where "streamData r = Some p" by blast
      with m show ?thesis by simp
    next
      case t
      from on_message_terminal [OF l nn t] show ?thesis by simp
    next
      case o
      from on_message_other [OF l o] show ?thesis by simp
    qed
  qed
  from a b c show ?thesis by blast
qed

text \<open>C10 at an example.\<close>

theorem C10_records_present_witness:
  "run (init 3)
     [Start_livestream (example_payload ''A'' 0), Start_livestream (example_payload ''B'' 0),
      Message (example_report ''active'' ''A'' 7)] =
   Inr ([example_worker [(''A'', 7)], example_worker [(''B'', 0)]],
        [PostMessage 0 ''start'' (Some (example_payload ''A'' 0)),
         PostMessage 1 ''start'' (Some (example_payload ''B'' 0)), Emit ''livestream_A'' ''active'']) \<and>
   fmlookup (sessions ([example_worker [(''A'', 7)], example_worker [(''B'', 0)]] ! 0)) ''A'' =
     Some \<lparr>streamData = Some (payload_after ''A'' (example_payload ''A'' 0)
       [Start_livestream (example_payload ''B'' 0), Message (example_report ''active'' ''A'' 7)])\<rparr> \<and>
   getWorkerId [example_worker [(''A'', 7)], example_worker [(''B'', 0)]]
     (deviceId (example_payload ''A'' 5)) = Inr 0 \<and>
   on_stop_livestream [example_worker [(''A'', 7)], example_worker [(''B'', 0)]] (example_payload ''A'' 5) =
     Inr ([example_worker [(''A'', 7)], example_worker [(''B'', 0)]],
          [PostMessage 0 ''stop'' (Some (example_payload ''A'' 7))]) \<and>
   on_message [example_worker [(''A'', 7)], example_worker [(''B'', 0)]] (example_report ''inactive'' ''A'' 9) =
     Inr ([example_worker [], example_worker [(''B'', 0)]], [Emit ''livestream_A'' ''inactive''])"
proof -
  have rec: "fmlookup (sessions ([example_worker [(''A'', 7)], example_worker [(''B'', 0)]] ! 0)) ''A'' =
     Some \<lparr>streamData = Some (payload_after ''A'' (example_payload ''A'' 0)
       [Start_livestream (example_payload ''B'' 0), Message (example_report ''active'' ''A'' 7)])\<rparr>"
    by (simp add: ex_simps)
  have l: "getWorkerId [example_worker [(''A'', 7)], example_worker [(''B'', 0)]]
     (deviceId (example_payload ''A'' 5)) = Inr 0"
    by (simp add: getWorkerId_def hasOwnProperty_def ex_simps)
  from C10_records_present [OF ex_run] ex_run rec l ex_stop_A ex_inactive_A
  show ?thesis by simp
qed

end
